theory Spec2Isabelle
  imports Main
begin

section \<open>The MSVC listing correlator of the assembly explorer\<close>

text \<open>
  This theory embeds the listing-to-source correlator of \<^verbatim>\<open>src/extension.ts\<close>: the
  callback that \<^verbatim>\<open>_decorateMSVC\<close> runs on every line of the assembly listing (lines
  319 to 375) and the conversion of the collected map into the sorted array of
  \<^verbatim>\<open>AssemblyListing\<close> records (lines 384 to 394).

  Conventions of the model.
  \<^item> A JavaScript string is a \<^typ>\<open>string\<close>, one \<^typ>\<open>char\<close> per code unit; only code
    units below 256 are representable. White space (\<^verbatim>\<open>String.prototype.trim\<close> and the
    class \<^verbatim>\<open>\s\<close> of a regular expression) is therefore tab, line feed, vertical tab,
    form feed, carriage return, space and the no-break space.
  \<^item> A line number is a \<^typ>\<open>nat\<close>: the pattern of a line-number directive accepts
    decimal digits only, so \<^verbatim>\<open>parseInt\<close> never yields a negative number or NaN. A
    number too large for a double is rounded by JavaScript, but such a number exceeds
    the line count of the document either way and is discarded alike.
  \<^item> \<^verbatim>\<open>Map<number, string[]>\<close> keeps its keys distinct and in insertion order: it is an
    association list that \<open>map_set\<close> updates in place or extends at the end.
  \<^item> The listing is the sequence of lines that the stream of \<^verbatim>\<open>lazy.js\<close> hands to the
    callback, or the error the stream reports.
\<close>

subsection \<open>Strings\<close>

definition TAB :: char where
  "TAB = CHR 0x09"

definition CRLF :: string where
  "CRLF = [CHR 0x0D, CHR 0x0A]"

definition is_space :: "char \<Rightarrow> bool" where
  "is_space c = (c \<in> set [CHR 0x09, CHR 0x0A, CHR 0x0B, CHR 0x0C, CHR 0x0D, CHR 0x20, CHR 0xA0])"

definition is_digit :: "char \<Rightarrow> bool" where
  "is_digit c = (c \<in> set ''0123456789'')"

text \<open>\<^verbatim>\<open>s.startsWith(p)\<close> and \<^verbatim>\<open>s.endsWith(p)\<close>.\<close>

definition startsWith :: "string \<Rightarrow> string \<Rightarrow> bool" where
  "startsWith s p = (take (length p) s = p)"

definition endsWith :: "string \<Rightarrow> string \<Rightarrow> bool" where
  "endsWith s p = (length p \<le> length s \<and> drop (length s - length p) s = p)"

text \<open>\<^verbatim>\<open>s.trim()\<close>: white space removed at both ends.\<close>

definition trim :: "string \<Rightarrow> string" where
  "trim s = rev (dropWhile is_space (rev (dropWhile is_space s)))"

text \<open>\<^verbatim>\<open>parseInt\<close> on a string of decimal digits.\<close>

definition digit_val :: "char \<Rightarrow> nat" where
  "digit_val c = of_char c - 48"

definition parseInt :: "string \<Rightarrow> nat" where
  "parseInt ds = foldl (\<lambda>n c. 10 * n + digit_val c) 0 ds"

text \<open>
  \<^verbatim>\<open>line_re.exec(line)\<close> for \<^verbatim>\<open>line_re = /^;\s+(\d+)\s+:/\<close>, returning the first group.
  Every quantified class of the pattern is followed by a character outside the class,
  so the greedy match never backtracks and one scan from the left decides it.
\<close>

definition line_re_exec :: "string \<Rightarrow> string option" where
  "line_re_exec s =
     (case s of
        [] \<Rightarrow> None
      | c # r0 \<Rightarrow>
          if c \<noteq> CHR '';'' then None
          else if takeWhile is_space r0 = [] then None
          else
            let r1 = dropWhile is_space r0;
                ds = takeWhile is_digit r1;
                r2 = dropWhile is_digit r1
            in if ds = [] then None
               else if takeWhile is_space r2 = [] then None
               else (case dropWhile is_space r2 of
                       [] \<Rightarrow> None
                     | d # _ \<Rightarrow> if d = CHR '':'' then Some ds else None))"

text \<open>\<^verbatim>\<open>asms.join(sep)\<close>.\<close>

fun join :: "string \<Rightarrow> string list \<Rightarrow> string" where
  "join sep [] = []"
| "join sep [x] = x"
| "join sep (x # y # ys) = x @ sep @ join sep (y # ys)"

subsection \<open>The map of collected lines\<close>

type_synonym line_map = "(nat \<times> string list) list"

definition map_has :: "line_map \<Rightarrow> nat \<Rightarrow> bool" where
  "map_has m k = (k \<in> set (map fst m))"

fun map_get :: "line_map \<Rightarrow> nat \<Rightarrow> string list option" where
  "map_get [] k = None"
| "map_get ((k', v) # m) k = (if k' = k then Some v else map_get m k)"

fun map_set :: "line_map \<Rightarrow> nat \<Rightarrow> string list \<Rightarrow> line_map" where
  "map_set [] k v = [(k, v)]"
| "map_set ((k', v') # m) k v = (if k' = k then (k, v) # m else (k', v') # map_set m k v)"

subsection \<open>The parser state and the callback run on each line\<close>

record state =
  in_file :: bool
  in_text :: bool
  current_line :: nat
  line_content :: line_map

definition initial_state :: state where
  "initial_state = \<lparr>in_file = False, in_text = False, current_line = 0, line_content = []\<rparr>"

text \<open>
  The callback of \<^verbatim>\<open>.each\<close>, with the checks in the order of the source. The arguments
  \<open>tmppath\<close> and \<open>total_lines\<close> are the values of \<^verbatim>\<open>tmppath\<close> and \<^verbatim>\<open>doc.lineCount\<close> that
  the closure captures. An array is truthy in JavaScript even when empty, so
  \<^verbatim>\<open>!asm_lines\<close> holds exactly when the key is absent; \<^verbatim>\<open>push\<close> changes the array
  stored in the map, which keeps its position.
\<close>

definition each :: "string \<Rightarrow> nat \<Rightarrow> state \<Rightarrow> string \<Rightarrow> state" where
  "each tmppath total_lines st ln =
     (if startsWith ln ''; File '' then
        (if trim ln = ''; File '' @ tmppath then st\<lparr>in_file := True\<rparr>
         else st\<lparr>in_file := False, in_text := False, current_line := 0\<rparr>)
      else if \<not> in_file st then st
      else if startsWith ln ''_TEXT'' \<and> endsWith ln ''SEGMENT'' then st\<lparr>in_text := True\<rparr>
      else if endsWith ln ''ENDP'' \<or> (startsWith ln ''_TEXT'' \<and> endsWith ln ''ENDS'') then
        st\<lparr>in_file := False, in_text := False, current_line := 0\<rparr>
      else if startsWith ln '';'' then
        (case line_re_exec ln of
           Some ds \<Rightarrow>
             (let n = parseInt ds
              in if n > total_lines \<or> map_has (line_content st) n
                 then st\<lparr>current_line := 0\<rparr>
                 else st\<lparr>current_line := n\<rparr>)
         | None \<Rightarrow> st)
      else if trim ln = [] then st
      else if \<not> startsWith ln [TAB] then st\<lparr>current_line := 0\<rparr>
      else if current_line st \<noteq> 0 then
        (case map_get (line_content st) (current_line st) of
           None \<Rightarrow> st\<lparr>line_content := map_set (line_content st) (current_line st) [ln]\<rparr>
         | Some asm_lines \<Rightarrow>
             st\<lparr>line_content :=
                  map_set (line_content st) (current_line st) (asm_lines @ [ln])\<rparr>)
      else st)"

subsection \<open>Errors, the document and the resulting records\<close>

text \<open>
  Two things can reject the promise of \<^verbatim>\<open>_decorateMSVC\<close> once the compiler has run:
  the stream reports an error (\<^verbatim>\<open>seq.onError\<close>), or \<^verbatim>\<open>doc.lineAt\<close> is called with a
  line outside the document, which the editor API answers with an exception.
\<close>

datatype error = StreamError | IllegalLine int

record TextDocument =
  fileName :: string
  doc_text :: "string list"

definition lineCount :: "TextDocument \<Rightarrow> nat" where
  "lineCount doc = length (doc_text doc)"

definition lineAt :: "TextDocument \<Rightarrow> int \<Rightarrow> error + string" where
  "lineAt doc i =
     (if 0 \<le> i \<and> i < int (lineCount doc) then Inr (doc_text doc ! nat i)
      else Inl (IllegalLine i))"

definition COLORS :: "string list" where
  "COLORS = [''#fbb4ae'', ''#b3cde3'', ''#ccebc5'', ''#decbe4'',
             ''#fed9a6'', ''#ffffcc'', ''#e5d8bd'', ''#fddaec'']"

record AssemblyListing =
  line :: nat
  src_file :: string
  assembly :: string
  code :: string
  color :: string

subsection \<open>Parsing and assembling\<close>

text \<open>
  The pass over the listing: the state after the last line holds the map, unless the
  stream failed.
\<close>

definition parse :: "string \<Rightarrow> nat \<Rightarrow> error + string list \<Rightarrow> error + line_map" where
  "parse tmppath total_lines stream =
     (case stream of
        Inl e \<Rightarrow> Inl e
      | Inr lns \<Rightarrow> Inr (line_content (foldl (each tmppath total_lines) initial_state lns)))"

text \<open>
  The function mapped over \<^verbatim>\<open>state.line_content.entries()\<close>. The index handed to
  \<^verbatim>\<open>lineAt\<close> is computed over the integers: for the key 0 it is \<open>-1\<close>.
\<close>

definition entry :: "TextDocument \<Rightarrow> nat \<times> string list \<Rightarrow> error + AssemblyListing" where
  "entry doc p =
     (case p of (lineno, asms) \<Rightarrow>
        (case lineAt doc (int (min lineno (lineCount doc)) - 1) of
           Inl e \<Rightarrow> Inl e
         | Inr txt \<Rightarrow>
             Inr \<lparr>line = lineno, src_file = fileName doc, assembly = join CRLF asms,
                  code = txt, color = COLORS ! ((lineno * 11) mod length COLORS)\<rparr>))"

fun map_entries :: "TextDocument \<Rightarrow> line_map \<Rightarrow> error + AssemblyListing list" where
  "map_entries doc [] = Inr []"
| "map_entries doc (p # ps) =
     (case entry doc p of
        Inl e \<Rightarrow> Inl e
      | Inr x \<Rightarrow> (case map_entries doc ps of Inl e \<Rightarrow> Inl e | Inr xs \<Rightarrow> Inr (x # xs)))"

text \<open>
  \<^verbatim>\<open>.sort((a, b) => a.line - b.line)\<close>. The keys of a map are distinct, so every
  sorting algorithm returns the same array; \<^const>\<open>sort_key\<close> is one of them.
\<close>

definition assemble :: "line_map \<Rightarrow> TextDocument \<Rightarrow> error + AssemblyListing list" where
  "assemble m doc =
     (case map_entries doc m of Inl e \<Rightarrow> Inl e | Inr xs \<Rightarrow> Inr (sort_key line xs))"


subsection \<open>Comment lines that the callback passes over\<close>

text \<open>
  A line that starts with a semicolon, is no \<^verbatim>\<open>; File\<close> line, does not end in
  \<^verbatim>\<open>ENDP\<close> and does not match \<^verbatim>\<open>line_re\<close>: the callback reaches the test
  \<^verbatim>\<open>line.startsWith(';')\<close>, finds no match and returns.
\<close>

definition unmatched_comment :: "string \<Rightarrow> bool" where
  "unmatched_comment ln =
     (startsWith ln '';'' \<and> \<not> startsWith ln ''; File '' \<and> \<not> endsWith ln ''ENDP'' \<and>
      line_re_exec ln = None)"

subsection \<open>States that differ in \<open>in_text\<close> at most\<close>


section \<open>Properties\<close>

subsection \<open>Prefixes and suffixes\<close>

lemma startsWith_appendD: "startsWith s p \<Longrightarrow> \<exists>r. s = p @ r"
  unfolding startsWith_def by (metis append_take_drop_id)

lemma endsWith_appendD: "endsWith s p \<Longrightarrow> \<exists>r. s = r @ p"
  unfolding endsWith_def by (metis append_take_drop_id)

lemma endsWith_last: "endsWith s p \<Longrightarrow> p \<noteq> [] \<Longrightarrow> last s = last p"
  by (auto dest!: endsWith_appendD)

lemma open_not_close:
  assumes "endsWith ln ''SEGMENT''"
  shows "\<not> endsWith ln ''ENDP''" and "\<not> endsWith ln ''ENDS''"
proof -
  from assms have l: "last ln = CHR ''T''" by (auto dest: endsWith_last)
  show "\<not> endsWith ln ''ENDP''"
  proof
    assume "endsWith ln ''ENDP''"
    then have "last ln = CHR ''P''" by (auto dest: endsWith_last)
    with l show False by simp
  qed
  show "\<not> endsWith ln ''ENDS''"
  proof
    assume "endsWith ln ''ENDS''"
    then have "last ln = CHR ''S''" by (auto dest: endsWith_last)
    with l show False by simp
  qed
qed

lemma semicolon_not_TEXT: "startsWith ln '';'' \<Longrightarrow> \<not> startsWith ln ''_TEXT''"
  by (auto dest!: startsWith_appendD)

lemma line_re_semicolon: "line_re_exec ln = Some ds \<Longrightarrow> startsWith ln '';''"
  by (cases ln) (auto simp: line_re_exec_def startsWith_def split: if_splits)

lemma line_re_not_file: "line_re_exec ln = Some ds \<Longrightarrow> \<not> startsWith ln ''; File ''"
proof
  assume m: "line_re_exec ln = Some ds" and f: "startsWith ln ''; File ''"
  from f obtain r where "ln = ''; File '' @ r" by (auto dest: startsWith_appendD)
  with m show False
    by (simp add: line_re_exec_def is_space_def is_digit_def Let_def split: if_splits)
qed





subsection \<open>The map keeps its keys distinct\<close>

lemma keys_map_set_old: "k \<in> set (map fst m) \<Longrightarrow> map fst (map_set m k v) = map fst m"
  by (induction m) (force+)

lemma keys_map_set_new: "k \<notin> set (map fst m) \<Longrightarrow> map fst (map_set m k v) = map fst m @ [k]"
  by (induction m) auto

lemma keys_map_set:
  "map fst (map_set m k v) = (if k \<in> set (map fst m) then map fst m else map fst m @ [k])"
  using keys_map_set_old keys_map_set_new by simp

lemma set_keys_map_set: "set (map fst (map_set m k v)) = insert k (set (map fst m))"
  by (auto simp: keys_map_set)

lemma distinct_map_set: "distinct (map fst m) \<Longrightarrow> distinct (map fst (map_set m k v))"
  by (simp add: keys_map_set)

subsection \<open>One line\<close>

lemma each_skip: "\<not> startsWith ln ''; File '' \<Longrightarrow> \<not> in_file st \<Longrightarrow> each t n st ln = st"
  by (simp add: each_def)


lemma each_close:
  assumes "in_file st" and "\<not> startsWith ln ''; File ''"
    and "endsWith ln ''ENDP'' \<or> (startsWith ln ''_TEXT'' \<and> endsWith ln ''ENDS'')"
  shows "each t n st ln = st\<lparr>in_file := False, in_text := False, current_line := 0\<rparr>"
proof -
  from assms(3) have "\<not> endsWith ln ''SEGMENT''" using open_not_close by blast
  with assms show ?thesis by (simp add: each_def)
qed

lemma each_comment:
  assumes "startsWith ln '';''" and "\<not> startsWith ln ''; File ''" and "\<not> endsWith ln ''ENDP''"
    and "line_re_exec ln = None"
  shows "each t n st ln = st"
  using assms semicolon_not_TEXT [OF assms(1)] by (simp add: each_def)

lemma each_directive:
  assumes "in_file st" and "line_re_exec ln = Some ds" and "\<not> endsWith ln ''ENDP''"
  shows "each t n st ln =
           (if n < parseInt ds \<or> map_has (line_content st) (parseInt ds)
            then st\<lparr>current_line := 0\<rparr> else st\<lparr>current_line := parseInt ds\<rparr>)"
  using assms line_re_not_file [OF assms(2)] line_re_semicolon [OF assms(2)]
    semicolon_not_TEXT [of ln]
  by (simp add: each_def Let_def)

lemma each_line_content_cases:
  "line_content (each t n st ln) = line_content st \<or>
   (in_file st \<and> current_line st \<noteq> 0 \<and> startsWith ln [TAB] \<and>
    (\<exists>v. line_content (each t n st ln) = map_set (line_content st) (current_line st) v))"
  by (auto simp: each_def Let_def split: option.splits)

lemma each_current_line_zero:
  assumes "current_line st = 0" and "line_re_exec ln = None"
  shows "current_line (each t n st ln) = 0" and "line_content (each t n st ln) = line_content st"
  using assms by (auto simp: each_def)

lemma each_current_line_bound:
  "current_line st \<le> n \<Longrightarrow> current_line (each t n st ln) \<le> n"
  by (auto simp: each_def Let_def split: option.splits)

lemma each_gate: "in_file st \<or> current_line st = 0 \<Longrightarrow>
    in_file (each t n st ln) \<or> current_line (each t n st ln) = 0"
  by (auto simp: each_def Let_def split: option.splits)

lemma each_keys:
  assumes "current_line st \<le> n"
    and "\<forall>k\<in>set (map fst (line_content st)). 1 \<le> k \<and> k \<le> n"
  shows "\<forall>k\<in>set (map fst (line_content (each t n st ln))). 1 \<le> k \<and> k \<le> n"
proof (rule disjE [OF each_line_content_cases [of t n st ln]])
  assume "line_content (each t n st ln) = line_content st"
  with assms(2) show ?thesis by simp
next
  assume "in_file st \<and> current_line st \<noteq> 0 \<and> startsWith ln [TAB] \<and>
    (\<exists>v. line_content (each t n st ln) = map_set (line_content st) (current_line st) v)"
  then obtain v where nz: "current_line st \<noteq> 0"
    and lc: "line_content (each t n st ln) = map_set (line_content st) (current_line st) v"
    by blast
  have "set (map fst (line_content (each t n st ln))) =
        insert (current_line st) (set (map fst (line_content st)))"
    by (simp only: lc set_keys_map_set)
  with assms nz show ?thesis by auto
qed

lemma each_distinct:
  assumes "distinct (map fst (line_content st))"
  shows "distinct (map fst (line_content (each t n st ln)))"
proof (rule disjE [OF each_line_content_cases [of t n st ln]])
  assume "line_content (each t n st ln) = line_content st"
  with assms show ?thesis by simp
next
  assume "in_file st \<and> current_line st \<noteq> 0 \<and> startsWith ln [TAB] \<and>
    (\<exists>v. line_content (each t n st ln) = map_set (line_content st) (current_line st) v)"
  then obtain v where
    lc: "line_content (each t n st ln) = map_set (line_content st) (current_line st) v"
    by blast
  show ?thesis by (simp only: lc distinct_map_set [OF assms])
qed


lemma each_comment_ENDP:
  assumes "startsWith ln '';''" and "\<not> startsWith ln ''; File ''" and "endsWith ln ''ENDP''"
  shows "each t n st ln =
           (if in_file st then st\<lparr>in_file := False, in_text := False, current_line := 0\<rparr>
            else st)"
  using assms semicolon_not_TEXT [OF assms(1)] open_not_close(1) [of ln]
  by (auto simp: each_def)







subsection \<open>A run of lines\<close>

lemma initial_gate: "in_file initial_state \<or> current_line initial_state = 0"
  by (simp add: initial_state_def)


lemma foldl_no_directive:
  assumes "current_line st = 0" and "\<forall>x\<in>set lns. line_re_exec x = None"
  shows "current_line (foldl (each t n) st lns) = 0 \<and>
         line_content (foldl (each t n) st lns) = line_content st"
  using assms
proof (induction lns arbitrary: st)
  case Nil
  then show ?case by simp
next
  case (Cons x xs)
  from Cons.prems have x: "line_re_exec x = None" by simp
  have "current_line (each t n st x) = 0" and "line_content (each t n st x) = line_content st"
    using each_current_line_zero [OF Cons.prems(1) x] by simp_all
  with Cons.IH [of "each t n st x"] Cons.prems(2) show ?case by simp
qed

lemma foldl_gate:
  "in_file st \<or> current_line st = 0 \<Longrightarrow>
   in_file (foldl (each t n) st lns) \<or> current_line (foldl (each t n) st lns) = 0"
proof (induction lns arbitrary: st)
  case Nil
  then show ?case by simp
next
  case (Cons x xs)
  from each_gate [OF Cons.prems] Cons.IH [of "each t n st x"] show ?case by simp
qed

lemma foldl_keys:
  assumes "current_line st \<le> n"
    and "\<forall>k\<in>set (map fst (line_content st)). 1 \<le> k \<and> k \<le> n"
  shows "\<forall>k\<in>set (map fst (line_content (foldl (each t n) st lns))). 1 \<le> k \<and> k \<le> n"
  using assms
proof (induction lns arbitrary: st)
  case Nil
  then show ?case by simp
next
  case (Cons x xs)
  have b: "current_line (each t n st x) \<le> n"
    by (rule each_current_line_bound [OF Cons.prems(1)])
  have k: "\<forall>k\<in>set (map fst (line_content (each t n st x))). 1 \<le> k \<and> k \<le> n"
    by (rule each_keys [OF Cons.prems])
  from Cons.IH [OF b k] show ?case by (simp only: foldl_Cons)
qed

lemma foldl_distinct:
  "distinct (map fst (line_content st)) \<Longrightarrow>
   distinct (map fst (line_content (foldl (each t n) st lns)))"
proof (induction lns arbitrary: st)
  case Nil
  then show ?case by simp
next
  case (Cons x xs)
  have "distinct (map fst (line_content (each t n st x)))"
    by (rule each_distinct [OF Cons.prems])
  from Cons.IH [OF this] show ?case by simp
qed

lemma foldl_drop_comments:
  "foldl (each t n) st (filter (\<lambda>x. \<not> unmatched_comment x) lns) = foldl (each t n) st lns"
proof (induction lns arbitrary: st)
  case Nil
  show ?case by simp
next
  case (Cons x xs)
  show ?case
  proof (cases "unmatched_comment x")
    case True
    then have "each t n st x = st"
      unfolding unmatched_comment_def using each_comment by blast
    with True Cons.IH [of st] show ?thesis by simp
  next
    case False
    with Cons.IH [of "each t n st x"] show ?thesis by simp
  qed
qed



subsection \<open>The records of the result\<close>

lemma lineAt_clamped:
  assumes "doc_text doc \<noteq> []" and "0 < lineno"
  shows "lineAt doc (int (min lineno (lineCount doc)) - 1) =
           Inr (doc_text doc ! (min lineno (lineCount doc) - 1))"
proof -
  have "0 < lineCount doc" using assms(1) by (simp add: lineCount_def)
  with assms(2) have m: "0 < min lineno (lineCount doc)" by simp
  then have "nat (int (min lineno (lineCount doc)) - 1) = min lineno (lineCount doc) - 1"
    by simp
  moreover from m have "0 \<le> int (min lineno (lineCount doc)) - 1" by simp
  moreover have "int (min lineno (lineCount doc)) - 1 < int (lineCount doc)" by simp
  ultimately show ?thesis by (simp only: lineAt_def simp_thms if_True)
qed

lemma entry_line: "entry doc p = Inr e \<Longrightarrow> line e = fst p"
  by (auto simp: entry_def split: prod.splits sum.splits)

lemma entry_color:
  "entry doc p = Inr e \<Longrightarrow> color e = COLORS ! ((line e * 11) mod length COLORS)"
  by (auto simp: entry_def split: prod.splits sum.splits)

lemma entry_code:
  assumes "doc_text doc \<noteq> []" and "0 < fst p"
  shows "\<exists>e. entry doc p = Inr e \<and>
             code e = doc_text doc ! (min (line e) (lineCount doc) - 1)"
proof (cases p)
  case (Pair lineno asms)
  with assms(2) have "0 < lineno" by simp
  from lineAt_clamped [OF assms(1) this] Pair show ?thesis by (simp add: entry_def)
qed

lemma map_entries_line: "map_entries doc m = Inr xs \<Longrightarrow> map line xs = map fst m"
proof (induction m arbitrary: xs)
  case Nil
  then show ?case by simp
next
  case (Cons p ps)
  then show ?case by (auto split: sum.splits dest: entry_line)
qed

lemma map_entries_color:
  "map_entries doc m = Inr xs \<Longrightarrow>
   \<forall>e\<in>set xs. color e = COLORS ! ((line e * 11) mod length COLORS)"
proof (induction m arbitrary: xs)
  case Nil
  then show ?case by simp
next
  case (Cons p ps)
  then show ?case by (auto split: sum.splits dest: entry_color)
qed

lemma map_entries_code:
  assumes "doc_text doc \<noteq> []" and "\<forall>p\<in>set m. 0 < fst p"
  shows "\<exists>xs. map_entries doc m = Inr xs \<and>
           (\<forall>e\<in>set xs. code e = doc_text doc ! (min (line e) (lineCount doc) - 1))"
  using assms(2)
proof (induction m)
  case Nil
  then show ?case by simp
next
  case (Cons p ps)
  from Cons.prems have "0 < fst p" by simp
  from entry_code [OF assms(1) this] obtain e where
    e: "entry doc p = Inr e" "code e = doc_text doc ! (min (line e) (lineCount doc) - 1)"
    by blast
  from Cons obtain xs where
    xs: "map_entries doc ps = Inr xs"
        "\<forall>e\<in>set xs. code e = doc_text doc ! (min (line e) (lineCount doc) - 1)"
    by auto
  from e xs show ?case by simp
qed

lemma map_insort_key: "map f (insort_key f x xs) = insort (f x) (map f xs)"
  by (induction xs) simp_all

lemma map_sort_key: "map f (sort_key f xs) = sort (map f xs)"
  by (induction xs) (simp_all add: map_insort_key)

subsection \<open>What every map returned by the parser satisfies\<close>

lemma parse_distinct: "parse t n (Inr lns) = Inr m \<Longrightarrow> distinct (map fst m)"
proof -
  assume "parse t n (Inr lns) = Inr m"
  then have m: "m = line_content (foldl (each t n) initial_state lns)"
    by (simp add: parse_def)
  have "distinct (map fst (line_content initial_state))"
    by (simp add: initial_state_def)
  then show ?thesis unfolding m by (rule foldl_distinct)
qed

lemma parse_keys_positive: "parse t n (Inr lns) = Inr m \<Longrightarrow> \<forall>p\<in>set m. 0 < fst p"
proof -
  assume "parse t n (Inr lns) = Inr m"
  then have m: "m = line_content (foldl (each t n) initial_state lns)"
    by (simp add: parse_def)
  have b: "current_line initial_state \<le> n" by (simp add: initial_state_def)
  have k: "\<forall>k\<in>set (map fst (line_content initial_state)). 1 \<le> k \<and> k \<le> n"
    by (simp add: initial_state_def)
  have "\<forall>k\<in>set (map fst m). 1 \<le> k \<and> k \<le> n"
    unfolding m by (rule foldl_keys [OF b k])
  then show ?thesis by fastforce
qed

section \<open>The claims\<close>

subsection \<open>C1: segment gating\<close>




subsection \<open>C2: the segment-close line\<close>

text \<open>
  Claim C2 says that a segment-close line resets \<open>in_text\<close> and \<open>current_line\<close> and
  leaves \<open>in_file\<close> unchanged. Counterexample for C2: the callback also assigns
  \<^verbatim>\<open>state.in_file = false\<close> (line 337), so \<open>in_file\<close> changes from true to false on
  \<^verbatim>\<open>_main ENDP\<close>.
\<close>

theorem segment_close_counterexample:
  "in_file \<lparr>in_file = True, in_text = True, current_line = 3, line_content = []\<rparr>
   \<and> endsWith (''_main'' @ [TAB] @ ''ENDP'') ''ENDP''
   \<and> in_file (each ''.asme-main.c'' 10
        \<lparr>in_file = True, in_text = True, current_line = 3, line_content = []\<rparr>
        (''_main'' @ [TAB] @ ''ENDP''))
     \<noteq> in_file \<lparr>in_file = True, in_text = True, current_line = 3, line_content = []\<rparr>"
  by code_simp

text \<open>
  Claim C2, amended. In a state with \<open>in_file\<close> true, a line that is no \<^verbatim>\<open>; File\<close>
  line and that ends in \<^verbatim>\<open>ENDP\<close>, or starts with \<^verbatim>\<open>_TEXT\<close> and ends in \<^verbatim>\<open>ENDS\<close>,
  sets \<open>in_file\<close> and \<open>in_text\<close> to false and \<open>current_line\<close> to 0, and changes nothing
  else: the map is the same.
\<close>

theorem segment_close_resets:
  assumes "in_file st" and "\<not> startsWith ln ''; File ''"
    and "endsWith ln ''ENDP'' \<or> (startsWith ln ''_TEXT'' \<and> endsWith ln ''ENDS'')"
  shows "each t n st ln = st\<lparr>in_file := False, in_text := False, current_line := 0\<rparr>
         \<and> line_content (each t n st ln) = line_content st"
  using each_close [OF assms] by simp

text \<open>Witness for C2: the line \<^verbatim>\<open>_TEXT ENDS\<close> in a state that holds one entry.\<close>

theorem segment_close_resets_witness:
  "each ''.asme-main.c'' 10
     \<lparr>in_file = True, in_text = True, current_line = 3, line_content = [(3, [TAB # ''ret''])]\<rparr>
     (''_TEXT'' @ [TAB] @ ''ENDS'')
   = \<lparr>in_file = False, in_text = False, current_line = 0, line_content = [(3, [TAB # ''ret''])]\<rparr>"
proof -
  have a: "in_file \<lparr>in_file = True, in_text = True, current_line = 3,
                   line_content = [(3, [TAB # ''ret''])]\<rparr>"
    by simp
  have b: "\<not> startsWith (''_TEXT'' @ [TAB] @ ''ENDS'') ''; File ''"
    by code_simp
  have c: "endsWith (''_TEXT'' @ [TAB] @ ''ENDS'') ''ENDP'' \<or>
           (startsWith (''_TEXT'' @ [TAB] @ ''ENDS'') ''_TEXT'' \<and>
            endsWith (''_TEXT'' @ [TAB] @ ''ENDS'') ''ENDS'')"
    by code_simp
  from segment_close_resets [OF a b c, of "''.asme-main.c''" 10] show ?thesis by simp
qed

subsection \<open>C3: a directive whose number does not parse\<close>

text \<open>
  Claim C3 says that a line-number directive with a malformed integer aborts the parse
  with an error and that no partial map is returned. Counterexample for C3: the pattern
  accepts digits only, so the line \<^verbatim>\<open>; 5x :\<close> is no directive at all; the callback
  returns on it (line 356), the parse goes on and returns a map, in which the next
  instruction still belongs to line 5.
\<close>

theorem malformed_directive_counterexample:
  "startsWith ''; 5x :'' '';'' \<and> line_re_exec ''; 5x :'' = None
   \<and> parse ''.asme-main.c'' 10
        (Inr [''; File .asme-main.c'', ''; 5 :'', TAB # ''mov eax, 1'', ''; 5x :'',
              TAB # ''mov eax, 2''])
      = Inr [(5, [TAB # ''mov eax, 1'', TAB # ''mov eax, 2''])]"
  by code_simp

text \<open>
  Claim C3, amended. A line that starts with a semicolon, is no \<^verbatim>\<open>; File\<close> line and
  does not match the pattern of a line-number directive raises no error: when it ends
  in \<^verbatim>\<open>ENDP\<close> inside the target file it is a segment-close line, and otherwise it
  leaves the whole state unchanged. The parse of a listing returns a map, and the
  listing without its lines of that kind that do not end in \<^verbatim>\<open>ENDP\<close> yields the same
  map.
\<close>

theorem unmatched_directive_ignored:
  "(startsWith ln '';'' \<and> \<not> startsWith ln ''; File '' \<and> line_re_exec ln = None
     \<longrightarrow> each t n st ln =
           (if endsWith ln ''ENDP'' \<and> in_file st
            then st\<lparr>in_file := False, in_text := False, current_line := 0\<rparr> else st))
   \<and> (\<exists>m. parse t n (Inr lns) = Inr m \<and>
            parse t n (Inr (filter (\<lambda>x. \<not> unmatched_comment x) lns)) = Inr m)"
proof (intro conjI impI)
  assume a: "startsWith ln '';'' \<and> \<not> startsWith ln ''; File '' \<and> line_re_exec ln = None"
  show "each t n st ln =
           (if endsWith ln ''ENDP'' \<and> in_file st
            then st\<lparr>in_file := False, in_text := False, current_line := 0\<rparr> else st)"
  proof (cases "endsWith ln ''ENDP''")
    case True
    with a each_comment_ENDP [of ln t n st] show ?thesis by simp
  next
    case False
    with a each_comment [of ln t n st] show ?thesis by simp
  qed
next
  have "parse t n (Inr (filter (\<lambda>x. \<not> unmatched_comment x) lns)) = parse t n (Inr lns)"
    by (simp add: parse_def foldl_drop_comments)
  then show "\<exists>m. parse t n (Inr lns) = Inr m \<and>
            parse t n (Inr (filter (\<lambda>x. \<not> unmatched_comment x) lns)) = Inr m"
    by (simp add: parse_def)
qed

text \<open>
  Witness for C3: the lines \<^verbatim>\<open>; 5x :\<close> and \<^verbatim>\<open>; 5x : ENDP\<close> in a state inside the
  target file, and a listing with the line \<^verbatim>\<open>; 5x :\<close> beside the same listing without
  it.
\<close>

theorem unmatched_directive_ignored_witness:
  "each ''.asme-main.c'' 10
      \<lparr>in_file = True, in_text = True, current_line = 5,
       line_content = [(5, [TAB # ''mov eax, 1''])]\<rparr> ''; 5x :''
    = \<lparr>in_file = True, in_text = True, current_line = 5,
       line_content = [(5, [TAB # ''mov eax, 1''])]\<rparr>
   \<and> each ''.asme-main.c'' 10
      \<lparr>in_file = True, in_text = True, current_line = 5,
       line_content = [(5, [TAB # ''mov eax, 1''])]\<rparr> ''; 5x : ENDP''
    = \<lparr>in_file = False, in_text = False, current_line = 0,
       line_content = [(5, [TAB # ''mov eax, 1''])]\<rparr>
   \<and> parse ''.asme-main.c'' 10
       (Inr [''; File .asme-main.c'', ''; 5 :'', ''; 5x :'', TAB # ''mov eax, 1''])
     = parse ''.asme-main.c'' 10 (Inr [''; File .asme-main.c'', ''; 5 :'', TAB # ''mov eax, 1''])"
proof (intro conjI)
  have h: "startsWith ''; 5x :'' '';'' \<and> \<not> startsWith ''; 5x :'' ''; File '' \<and>
           line_re_exec ''; 5x :'' = None"
    by code_simp
  have e: "\<not> endsWith ''; 5x :'' ''ENDP''" by code_simp
  from unmatched_directive_ignored [where ln = "''; 5x :''" and t = "''.asme-main.c''"
      and n = 10 and st = "\<lparr>in_file = True, in_text = True, current_line = 5,
       line_content = [(5, [TAB # ''mov eax, 1''])]\<rparr>"] h e
  show "each ''.asme-main.c'' 10
      \<lparr>in_file = True, in_text = True, current_line = 5,
       line_content = [(5, [TAB # ''mov eax, 1''])]\<rparr> ''; 5x :''
    = \<lparr>in_file = True, in_text = True, current_line = 5,
       line_content = [(5, [TAB # ''mov eax, 1''])]\<rparr>"
    by simp
next
  have h: "startsWith ''; 5x : ENDP'' '';'' \<and> \<not> startsWith ''; 5x : ENDP'' ''; File '' \<and>
           line_re_exec ''; 5x : ENDP'' = None"
    by code_simp
  have e: "endsWith ''; 5x : ENDP'' ''ENDP''" by code_simp
  from unmatched_directive_ignored [where ln = "''; 5x : ENDP''" and t = "''.asme-main.c''"
      and n = 10 and st = "\<lparr>in_file = True, in_text = True, current_line = 5,
       line_content = [(5, [TAB # ''mov eax, 1''])]\<rparr>"] h e
  show "each ''.asme-main.c'' 10
      \<lparr>in_file = True, in_text = True, current_line = 5,
       line_content = [(5, [TAB # ''mov eax, 1''])]\<rparr> ''; 5x : ENDP''
    = \<lparr>in_file = False, in_text = False, current_line = 0,
       line_content = [(5, [TAB # ''mov eax, 1''])]\<rparr>"
    by simp
next
  have f: "filter (\<lambda>x. \<not> unmatched_comment x)
             [''; File .asme-main.c'', ''; 5 :'', ''; 5x :'', TAB # ''mov eax, 1'']
           = [''; File .asme-main.c'', ''; 5 :'', TAB # ''mov eax, 1'']"
    by code_simp
  from unmatched_directive_ignored [where t = "''.asme-main.c''" and n = 10
      and lns = "[''; File .asme-main.c'', ''; 5 :'', ''; 5x :'', TAB # ''mov eax, 1'']"]
  have "\<exists>m. parse ''.asme-main.c'' 10
          (Inr [''; File .asme-main.c'', ''; 5 :'', ''; 5x :'', TAB # ''mov eax, 1'']) = Inr m \<and>
        parse ''.asme-main.c'' 10
          (Inr (filter (\<lambda>x. \<not> unmatched_comment x)
             [''; File .asme-main.c'', ''; 5 :'', ''; 5x :'', TAB # ''mov eax, 1''])) = Inr m"
    by blast
  then show "parse ''.asme-main.c'' 10
       (Inr [''; File .asme-main.c'', ''; 5 :'', ''; 5x :'', TAB # ''mov eax, 1''])
     = parse ''.asme-main.c'' 10 (Inr [''; File .asme-main.c'', ''; 5 :'', TAB # ''mov eax, 1''])"
    by (auto simp only: f)
qed

subsection \<open>C4: directives that are noise\<close>

text \<open>
  Claim C4 ends with two examples. Counterexample for C4: the four lines of the first
  example, given to the parser as they are, yield the empty map and not an entry for
  line 5, since no \<^verbatim>\<open>; File\<close> line has named the target and the callback skips every
  line (line 330).
\<close>

theorem duplicate_example_counterexample:
  "parse ''.asme-main.c'' 10
     (Inr [''; 5 :'', TAB # ''mov eax, 1'', ''; 5 :'', TAB # ''mov eax, 2'']) = Inr []"
  by code_simp

text \<open>
  Claim C4, amended. In every state that the parser reaches, a line-number directive
  whose number exceeds the line count, or has an entry in the map already, sets
  \<open>current_line\<close> to 0, and the lines that follow change the map no more as long as
  none of them is a line-number directive. The first example holds once the file
  directive of the target precedes its lines; the second holds with and without it.
\<close>

theorem noise_directive:
  "(st = foldl (each t n) initial_state pre \<and> line_re_exec ln = Some ds \<and>
    (n < parseInt ds \<or> map_has (line_content st) (parseInt ds)) \<and>
    (\<forall>x\<in>set lns. line_re_exec x = None)
    \<longrightarrow> current_line (each t n st ln) = 0 \<and>
        line_content (foldl (each t n) (each t n st ln) lns) = line_content st)
   \<and> parse ''.asme-main.c'' 10
        (Inr [''; File .asme-main.c'', ''; 5 :'', TAB # ''mov eax, 1'', ''; 5 :'',
              TAB # ''mov eax, 2''])
      = Inr [(5, [TAB # ''mov eax, 1''])]
   \<and> parse ''.asme-main.c'' 3 (Inr [''; File .asme-main.c'', ''; 99 :'', TAB # ''nop'']) = Inr []
   \<and> parse ''.asme-main.c'' 3 (Inr [''; 99 :'', TAB # ''nop'']) = Inr []"
proof (intro conjI impI)
  assume a: "st = foldl (each t n) initial_state pre \<and> line_re_exec ln = Some ds \<and>
    (n < parseInt ds \<or> map_has (line_content st) (parseInt ds)) \<and>
    (\<forall>x\<in>set lns. line_re_exec x = None)"
  then have m: "line_re_exec ln = Some ds"
    and noise: "n < parseInt ds \<or> map_has (line_content st) (parseInt ds)"
    and rest: "\<forall>x\<in>set lns. line_re_exec x = None" by blast+
  from a have st: "st = foldl (each t n) initial_state pre" by blast
  have gate: "in_file st \<or> current_line st = 0"
    unfolding st by (rule foldl_gate [OF initial_gate])
  have step: "current_line (each t n st ln) = 0 \<and>
              line_content (each t n st ln) = line_content st"
  proof (cases "in_file st")
    case False
    with gate have "current_line st = 0" by simp
    moreover from False line_re_not_file [OF m] have "each t n st ln = st"
      by (simp add: each_skip)
    ultimately show ?thesis by simp
  next
    case True
    show ?thesis
    proof (cases "endsWith ln ''ENDP''")
      case True
      with \<open>in_file st\<close> line_re_not_file [OF m] each_close [of st ln t n]
      show ?thesis by simp
    next
      case False
      from each_directive [OF \<open>in_file st\<close> m False, where t = t and n = n] noise
      show ?thesis by simp
    qed
  qed
  then show "current_line (each t n st ln) = 0" by simp
  from step foldl_no_directive [OF _ rest, of "each t n st ln" t n]
  show "line_content (foldl (each t n) (each t n st ln) lns) = line_content st" by simp
next
  show "parse ''.asme-main.c'' 10
        (Inr [''; File .asme-main.c'', ''; 5 :'', TAB # ''mov eax, 1'', ''; 5 :'',
              TAB # ''mov eax, 2''])
      = Inr [(5, [TAB # ''mov eax, 1''])]"
    by code_simp
next
  show "parse ''.asme-main.c'' 3 (Inr [''; File .asme-main.c'', ''; 99 :'', TAB # ''nop''])
        = Inr []"
    by code_simp
next
  show "parse ''.asme-main.c'' 3 (Inr [''; 99 :'', TAB # ''nop'']) = Inr []"
    by code_simp
qed

text \<open>
  Witness for C4: the state after the first block of line 5, the second directive for
  line 5 and the instruction after it.
\<close>

theorem noise_directive_witness:
  "current_line (each ''.asme-main.c'' 10
      (foldl (each ''.asme-main.c'' 10) initial_state
         [''; File .asme-main.c'', ''; 5 :'', TAB # ''mov eax, 1''])
      ''; 5 :'') = 0
   \<and> line_content (foldl (each ''.asme-main.c'' 10)
        (each ''.asme-main.c'' 10
           (foldl (each ''.asme-main.c'' 10) initial_state
              [''; File .asme-main.c'', ''; 5 :'', TAB # ''mov eax, 1''])
           ''; 5 :'')
        [TAB # ''mov eax, 2''])
     = line_content (foldl (each ''.asme-main.c'' 10) initial_state
         [''; File .asme-main.c'', ''; 5 :'', TAB # ''mov eax, 1''])"
proof -
  have h: "foldl (each ''.asme-main.c'' 10) initial_state
             [''; File .asme-main.c'', ''; 5 :'', TAB # ''mov eax, 1'']
           = foldl (each ''.asme-main.c'' 10) initial_state
               [''; File .asme-main.c'', ''; 5 :'', TAB # ''mov eax, 1''] \<and>
    line_re_exec ''; 5 :'' = Some ''5'' \<and>
    (10 < parseInt ''5'' \<or>
     map_has (line_content (foldl (each ''.asme-main.c'' 10) initial_state
         [''; File .asme-main.c'', ''; 5 :'', TAB # ''mov eax, 1''])) (parseInt ''5'')) \<and>
    (\<forall>x\<in>set [TAB # ''mov eax, 2'']. line_re_exec x = None)"
    by code_simp
  from noise_directive [where t = "''.asme-main.c''" and n = 10
      and st = "foldl (each ''.asme-main.c'' 10) initial_state
                  [''; File .asme-main.c'', ''; 5 :'', TAB # ''mov eax, 1'']"
      and pre = "[''; File .asme-main.c'', ''; 5 :'', TAB # ''mov eax, 1'']"
      and ln = "''; 5 :''" and ds = "''5''" and lns = "[TAB # ''mov eax, 2'']"] h
  show ?thesis by blast
qed

subsection \<open>C5: the result is strictly ascending\<close>

text \<open>
  Claim C5: the array that \<open>assemble\<close> returns is in strictly ascending order of
  \<open>line\<close>, so no two of its records share a line. The keys of the map are distinct, as
  those of a \<^verbatim>\<open>Map\<close> are (\<open>parse_distinct\<close> shows it for the parser's maps).
\<close>

theorem assemble_sorted_unique:
  assumes "distinct (map fst m)" and "assemble m doc = Inr out"
  shows "sorted_wrt (<) (map line out) \<and> distinct (map line out)"
proof -
  from assms(2) obtain xs where xs: "map_entries doc m = Inr xs" and out: "out = sort_key line xs"
    by (auto simp: assemble_def split: sum.splits)
  have "map line out = sort (map fst m)"
    by (simp only: out map_sort_key map_entries_line [OF xs])
  with assms(1) have "sorted (map line out)" and "distinct (map line out)"
    by simp_all
  then show ?thesis by (simp only: strict_sorted_iff simp_thms)
qed

text \<open>Witness for C5: a map discovered in the order 5, 2.\<close>

theorem assemble_sorted_unique_witness:
  "sorted_wrt (<) (map line
      [\<lparr>line = 2, src_file = ''main.c'', assembly = TAB # ''ret'', code = ''b'',
        color = ''#e5d8bd''\<rparr>,
       \<lparr>line = 5, src_file = ''main.c'', assembly = TAB # ''mov eax, 1'', code = ''e'',
        color = ''#fddaec''\<rparr>])"
proof -
  have d: "distinct (map fst [(5::nat, [TAB # ''mov eax, 1'']), (2, [TAB # ''ret''])])"
    by simp
  have a: "assemble [(5, [TAB # ''mov eax, 1'']), (2, [TAB # ''ret''])]
             \<lparr>fileName = ''main.c'', doc_text = [''a'', ''b'', ''c'', ''d'', ''e'']\<rparr>
           = Inr [\<lparr>line = 2, src_file = ''main.c'', assembly = TAB # ''ret'', code = ''b'',
                   color = ''#e5d8bd''\<rparr>,
                  \<lparr>line = 5, src_file = ''main.c'', assembly = TAB # ''mov eax, 1'', code = ''e'',
                   color = ''#fddaec''\<rparr>]"
    by code_simp
  from assemble_sorted_unique [OF d a] show ?thesis by (rule conjunct1)
qed

subsection \<open>C6: no directive names the target\<close>



subsection \<open>C7: the source text is read at a clamped index\<close>

text \<open>
  Claim C7: for a document with at least one line and a map of line numbers, which
  count from 1 (\<open>parse_keys_positive\<close>: the parser returns no other), \<open>assemble\<close>
  succeeds, has a record for each key, and the \<open>code\<close> of each record is the line of the
  document at index \<open>min line lineCount - 1\<close>, an index inside the document also when
  \<open>line\<close> exceeds the line count.
\<close>

theorem assemble_source_text_clamped:
  assumes "doc_text doc \<noteq> []" and "\<forall>p\<in>set m. 0 < fst p"
  shows "\<exists>out. assemble m doc = Inr out \<and> set (map line out) = set (map fst m) \<and>
           (\<forall>e\<in>set out. min (line e) (lineCount doc) - 1 < lineCount doc \<and>
                         code e = doc_text doc ! (min (line e) (lineCount doc) - 1))"
proof -
  from map_entries_code [OF assms] obtain xs where
    xs: "map_entries doc m = Inr xs"
    and c: "\<forall>e\<in>set xs. code e = doc_text doc ! (min (line e) (lineCount doc) - 1)"
    by blast
  have a: "assemble m doc = Inr (sort_key line xs)" by (simp add: assemble_def xs)
  have l: "set (map line (sort_key line xs)) = set (map fst m)"
    by (simp only: map_sort_key map_entries_line [OF xs] set_sort)
  have "0 < lineCount doc" using assms(1) by (simp add: lineCount_def)
  then have b: "min k (lineCount doc) - 1 < lineCount doc" for k by simp
  from c b have "\<forall>e\<in>set (sort_key line xs).
       min (line e) (lineCount doc) - 1 < lineCount doc \<and>
       code e = doc_text doc ! (min (line e) (lineCount doc) - 1)"
    by simp
  with a l show ?thesis by blast
qed

text \<open>Witness for C7: line 9 in a document of three lines.\<close>

theorem assemble_source_text_clamped_witness:
  "\<exists>out. assemble [(9, [TAB # ''nop''])]
            \<lparr>fileName = ''main.c'', doc_text = [''int f()'', ''{'', ''}'']\<rparr> = Inr out \<and>
         set (map line out) = set (map fst [(9::nat, [TAB # ''nop''])]) \<and>
         (\<forall>e\<in>set out.
            min (line e) (lineCount \<lparr>fileName = ''main.c'', doc_text = [''int f()'', ''{'', ''}'']\<rparr>) - 1
              < lineCount \<lparr>fileName = ''main.c'', doc_text = [''int f()'', ''{'', ''}'']\<rparr> \<and>
            code e = doc_text \<lparr>fileName = ''main.c'', doc_text = [''int f()'', ''{'', ''}'']\<rparr> !
              (min (line e)
                 (lineCount \<lparr>fileName = ''main.c'', doc_text = [''int f()'', ''{'', ''}'']\<rparr>) - 1))"
proof -
  have a: "doc_text \<lparr>fileName = ''main.c'', doc_text = [''int f()'', ''{'', ''}'']\<rparr> \<noteq> []"
    by simp
  have b: "\<forall>p\<in>set [(9::nat, [TAB # ''nop''])]. 0 < fst p"
    by simp
  show ?thesis by (rule assemble_source_text_clamped [OF a b])
qed

subsection \<open>C8: the colour of a line\<close>

text \<open>
  Claim C8: whenever \<open>assemble\<close> returns, every key \<open>L\<close> of the map has a record in the
  result, and every record of line \<open>L\<close> has the colour of the palette at index
  \<open>(L * 11) mod length COLORS\<close>, an index inside the palette: the colour depends on
  \<open>L\<close> alone, whatever else the map holds. For a document with at least one line and
  line numbers that count from 1, \<open>assemble\<close> does return.
\<close>

theorem assemble_color:
  "(assemble m doc = Inr out \<and> (L, asms) \<in> set m
      \<longrightarrow> (\<exists>e\<in>set out. line e = L) \<and>
          (\<forall>e\<in>set out. line e = L \<longrightarrow> color e = COLORS ! ((L * 11) mod length COLORS)) \<and>
          (L * 11) mod length COLORS < length COLORS)
   \<and> (doc_text doc \<noteq> [] \<and> (\<forall>p\<in>set m. 0 < fst p) \<longrightarrow> (\<exists>res. assemble m doc = Inr res))"
proof (intro conjI impI)
  assume a: "assemble m doc = Inr out \<and> (L, asms) \<in> set m"
  then obtain xs where xs: "map_entries doc m = Inr xs" and out: "out = sort_key line xs"
    by (auto simp: assemble_def split: sum.splits)
  from a have "L \<in> set (map fst m)" by force
  then have "L \<in> set (map line xs)" by (simp only: map_entries_line [OF xs])
  then show "\<exists>e\<in>set out. line e = L" by (auto simp: out)
  from map_entries_color [OF xs]
  show "\<forall>e\<in>set out. line e = L \<longrightarrow> color e = COLORS ! ((L * 11) mod length COLORS)"
    by (auto simp: out)
  show "(L * 11) mod length COLORS < length COLORS" by (simp add: COLORS_def)
next
  assume "doc_text doc \<noteq> [] \<and> (\<forall>p\<in>set m. 0 < fst p)"
  then have "doc_text doc \<noteq> []" and "\<forall>p\<in>set m. 0 < fst p" by blast+
  from map_entries_code [OF this] obtain xs where "map_entries doc m = Inr xs" by blast
  then show "\<exists>res. assemble m doc = Inr res" by (simp add: assemble_def)
qed

text \<open>Witness for C8: the key 5 in a map of two keys.\<close>

theorem assemble_color_witness:
  "color \<lparr>line = 5, src_file = ''main.c'', assembly = TAB # ''mov eax, 1'', code = ''e'',
          color = ''#fddaec''\<rparr>
    = COLORS ! ((5 * 11) mod length COLORS)
   \<and> (\<exists>res. assemble [(5, [TAB # ''mov eax, 1'']), (2, [TAB # ''ret''])]
             \<lparr>fileName = ''main.c'', doc_text = [''a'', ''b'', ''c'', ''d'', ''e'']\<rparr> = Inr res)"
proof (intro conjI)
  have a: "assemble [(5, [TAB # ''mov eax, 1'']), (2, [TAB # ''ret''])]
             \<lparr>fileName = ''main.c'', doc_text = [''a'', ''b'', ''c'', ''d'', ''e'']\<rparr>
           = Inr [\<lparr>line = 2, src_file = ''main.c'', assembly = TAB # ''ret'', code = ''b'',
                   color = ''#e5d8bd''\<rparr>,
                  \<lparr>line = 5, src_file = ''main.c'', assembly = TAB # ''mov eax, 1'', code = ''e'',
                   color = ''#fddaec''\<rparr>]"
    by code_simp
  have b: "(5, [TAB # ''mov eax, 1'']) \<in> set [(5::nat, [TAB # ''mov eax, 1'']), (2, [TAB # ''ret''])]"
    by simp
  from assemble_color [where m = "[(5, [TAB # ''mov eax, 1'']), (2, [TAB # ''ret''])]"
      and doc = "\<lparr>fileName = ''main.c'', doc_text = [''a'', ''b'', ''c'', ''d'', ''e'']\<rparr>"
      and L = 5 and asms = "[TAB # ''mov eax, 1'']"
      and out = "[\<lparr>line = 2, src_file = ''main.c'', assembly = TAB # ''ret'', code = ''b'',
                   color = ''#e5d8bd''\<rparr>,
                  \<lparr>line = 5, src_file = ''main.c'', assembly = TAB # ''mov eax, 1'', code = ''e'',
                   color = ''#fddaec''\<rparr>]"] a b
  show "color \<lparr>line = 5, src_file = ''main.c'', assembly = TAB # ''mov eax, 1'', code = ''e'',
          color = ''#fddaec''\<rparr>
    = COLORS ! ((5 * 11) mod length COLORS)"
    by simp
next
  have d: "doc_text \<lparr>fileName = ''main.c'', doc_text = [''a'', ''b'', ''c'', ''d'', ''e'']\<rparr> \<noteq> []
           \<and> (\<forall>p\<in>set [(5::nat, [TAB # ''mov eax, 1'']), (2, [TAB # ''ret''])]. 0 < fst p)"
    by simp
  from assemble_color [where m = "[(5, [TAB # ''mov eax, 1'']), (2, [TAB # ''ret''])]"
      and doc = "\<lparr>fileName = ''main.c'', doc_text = [''a'', ''b'', ''c'', ''d'', ''e'']\<rparr>"] d
  show "\<exists>res. assemble [(5, [TAB # ''mov eax, 1'']), (2, [TAB # ''ret''])]
             \<lparr>fileName = ''main.c'', doc_text = [''a'', ''b'', ''c'', ''d'', ''e'']\<rparr> = Inr res"
    by blast
qed

subsection \<open>C9: other comment lines\<close>

text \<open>
  Claim C9 says that inside the target file every line that starts with a semicolon, is
  no \<^verbatim>\<open>; File\<close> line and does not match the pattern leaves the state unchanged.
  Counterexample for C9: the test for \<^verbatim>\<open>ENDP\<close> at the end of the line (line 336) comes
  before the test for the semicolon, so the comment \<^verbatim>\<open>; _main ENDP\<close> resets the state.
\<close>

theorem comment_frame_counterexample:
  "in_file \<lparr>in_file = True, in_text = True, current_line = 3, line_content = []\<rparr>
   \<and> startsWith ''; _main ENDP'' '';'' \<and> \<not> startsWith ''; _main ENDP'' ''; File ''
   \<and> line_re_exec ''; _main ENDP'' = None
   \<and> each ''.asme-main.c'' 10
        \<lparr>in_file = True, in_text = True, current_line = 3, line_content = []\<rparr> ''; _main ENDP''
     = \<lparr>in_file = False, in_text = False, current_line = 0, line_content = []\<rparr>"
  by code_simp

text \<open>
  Claim C9, amended. Inside the target file a line that starts with a semicolon, is no
  \<^verbatim>\<open>; File\<close> line, does not match the pattern of a line-number directive and does not
  end in \<^verbatim>\<open>ENDP\<close> leaves the whole state unchanged.
\<close>

theorem unmatched_comment_frame:
  assumes "in_file st" and "startsWith ln '';''" and "\<not> startsWith ln ''; File ''"
    and "line_re_exec ln = None" and "\<not> endsWith ln ''ENDP''"
  shows "each t n st ln = st"
  by (rule each_comment [OF assms(2,3,5,4)])

text \<open>Witness for C9: a comment of the compiler.\<close>

theorem unmatched_comment_frame_witness:
  "each ''.asme-main.c'' 10
     \<lparr>in_file = True, in_text = True, current_line = 3, line_content = [(3, [TAB # ''ret''])]\<rparr>
     ''; Function compile flags: /Odtp''
   = \<lparr>in_file = True, in_text = True, current_line = 3, line_content = [(3, [TAB # ''ret''])]\<rparr>"
proof -
  have a: "in_file \<lparr>in_file = True, in_text = True, current_line = 3,
                   line_content = [(3, [TAB # ''ret''])]\<rparr>"
    by simp
  have b: "startsWith ''; Function compile flags: /Odtp'' '';''" by code_simp
  have c: "\<not> startsWith ''; Function compile flags: /Odtp'' ''; File ''" by code_simp
  have d: "line_re_exec ''; Function compile flags: /Odtp'' = None" by code_simp
  have e: "\<not> endsWith ''; Function compile flags: /Odtp'' ''ENDP''" by code_simp
  show ?thesis by (rule unmatched_comment_frame [OF a b c d e])
qed

subsection \<open>C10: the keys of the map\<close>

text \<open>
  Claim C10: every key of the map that the parser returns lies between 1 and the line
  count, and 0 is never a key: a directive for line 0 sets \<open>current_line\<close> to 0, which
  is the value that stands for no line.
\<close>

theorem parse_keys_in_range:
  assumes "parse t n (Inr lns) = Inr m"
  shows "(\<forall>k\<in>set (map fst m). 1 \<le> k \<and> k \<le> n) \<and> \<not> map_has m 0"
proof -
  from assms have m: "m = line_content (foldl (each t n) initial_state lns)"
    by (simp add: parse_def)
  have b: "current_line initial_state \<le> n" by (simp add: initial_state_def)
  have k: "\<forall>k\<in>set (map fst (line_content initial_state)). 1 \<le> k \<and> k \<le> n"
    by (simp add: initial_state_def)
  have r: "\<forall>k\<in>set (map fst m). 1 \<le> k \<and> k \<le> n"
    unfolding m by (rule foldl_keys [OF b k])
  then have "0 \<notin> set (map fst m)" by fastforce
  with r show ?thesis by (simp only: map_has_def simp_thms)
qed

text \<open>
  Witness for C10: a listing with directives for the lines 0, 2 and 11 of a document of
  ten lines; only line 2 is a key.
\<close>

theorem parse_keys_in_range_witness:
  "1 \<le> fst (2::nat, [TAB # ''ret'']) \<and> fst (2::nat, [TAB # ''ret'']) \<le> 10
   \<and> \<not> map_has [(2, [TAB # ''ret''])] 0"
proof -
  have p: "parse ''.asme-main.c'' 10
             (Inr [''; File .asme-main.c'', ''; 0 :'', TAB # ''nop'', ''; 2 :'', TAB # ''ret'',
                   ''; 11 :'', TAB # ''int 3''])
           = Inr [(2, [TAB # ''ret''])]"
    by code_simp
  from parse_keys_in_range [OF p] show ?thesis by simp
qed

end
